theory Spec2Isabelle
  imports Main "HOL-Library.Sublist"
begin

section \<open>NiziPOS simulator: the serial transfer engine of \<open>src/App.tsx\<close>\<close>

text \<open>
  The component \<open>App\<close> keeps two kinds of data. Mutable references (\<open>useRef\<close>) and the
  values behind the React state setters live in one record, \<open>app_state\<close>, which every
  function takes and returns. The values a function \<^emph>\<open>reads\<close> from React state variables
  (\<open>isDeviceConnected\<close>, \<open>uploadedImages\<close>, ...) are the bindings of the render in which the
  closure was created; they are passed as a record \<open>render\<close>. A closure created in the render
  that shows state \<open>s\<close> gets \<open>render_of s\<close>.

  Bytes and characters are both \<^typ>\<open>char\<close>. Inbound text is 7-bit ASCII in this protocol;
  on such input \<open>new TextDecoder().decode\<close> is the identity, and that is how \<open>decode\<close> is
  written. Theorems about decoded text carry the hypothesis \<open>ascii\<close>.
\<close>

subsection \<open>Strings as the code uses them\<close>

definition CR :: char where "CR = CHR 0x0D"
definition LF :: char where "LF = CHR 0x0A"

definition ascii :: "char list \<Rightarrow> bool" where
  "ascii bs = list_all (\<lambda>c. (of_char c :: nat) < 128) bs"

definition decode :: "char list \<Rightarrow> string" where
  "decode data = data"

text \<open>\<open>String.prototype.includes\<close> with a string argument.\<close>

definition includesStr :: "string \<Rightarrow> string \<Rightarrow> bool" where
  "includesStr s pat = sublist pat s"

text \<open>\<open>s.replace(pat, '')\<close> with a string pattern: the first occurrence only.\<close>

fun removeFirst :: "string \<Rightarrow> string \<Rightarrow> string" where
  "removeFirst pat [] = []"
| "removeFirst pat (c # cs) =
     (if prefix pat (c # cs) then drop (length pat) (c # cs) else c # removeFirst pat cs)"

text \<open>
  \<open>s.split(/\r\n|\n/)\<close>: scanning from the left, \<open>\r\n\<close> and a bare \<open>\n\<close> end a segment;
  the result always has a last segment (possibly empty).
\<close>

definition consHead :: "char \<Rightarrow> string list \<Rightarrow> string list" where
  "consHead c segs = (case segs of [] \<Rightarrow> [[c]] | x # xs \<Rightarrow> (c # x) # xs)"

fun splitLines :: "string \<Rightarrow> string list" where
  "splitLines [] = [[]]"
| "splitLines [c] = (if c = LF then [[], []] else [[c]])"
| "splitLines (c # d # cs) =
     (if c = CR \<and> d = LF then [] # splitLines cs
      else if c = LF then [] # splitLines (d # cs)
      else consHead c (splitLines (d # cs)))"

text \<open>\<open>String.prototype.trim\<close> on ASCII text: tab, LF, VT, FF, CR and space are stripped.\<close>

definition isSpaceJS :: "char \<Rightarrow> bool" where
  "isSpaceJS c = ((of_char c :: nat) \<in> {9, 10, 11, 12, 13, 32})"

definition trim :: "string \<Rightarrow> string" where
  "trim s = rev (dropWhile isSpaceJS (rev (dropWhile isSpaceJS s)))"

text \<open>Template literals print numbers in decimal.\<close>

definition digitChar :: "nat \<Rightarrow> char" where
  "digitChar d = char_of (48 + d)"

fun decimal :: "nat \<Rightarrow> string" where
  "decimal n = (if n < 10 then [digitChar n] else decimal (n div 10) @ [digitChar (n mod 10)])"

declare decimal.simps [simp del]

subsection \<open>Constants\<close>

definition FRAME_MAGIC :: nat where "FRAME_MAGIC = 0xaa55cc33"
definition TRANSFER_TIMEOUT :: int where "TRANSFER_TIMEOUT = 15000"

datatype log_type = INFO | ERROR | SUCCESS | SENT | WARNING | TIMEOUT

definition FRAME_LOST :: string where "FRAME_LOST = ''FRAME_LOST'' @ [CR, LF]"
definition INVALID_CMD :: string where "INVALID_CMD = ''INVALID_CMD'' @ [CR, LF]"

subsection \<open>State\<close>

record UploadedImage =
  uri :: string
  type :: "string option"
  name :: "string option"
  base64 :: "string option"

text \<open>What reaches the native serial module: \<open>UsbSerial.write\<close> or \<open>UsbSerial.writeHexString\<close>.\<close>

datatype write_op = Write string | WriteHexString string

text \<open>
  \<open>linkError\<close> is the environment: \<open>None\<close> when the native module's write promises resolve,
  \<open>Some msg\<close> when they reject with \<open>Error(msg)\<close>. \<open>written\<close> lists the writes that were
  carried out, oldest first. \<open>logs\<close> holds the monitor entries, newest first, as
  \<open>setLogs(prev => [newLog, ...prev])\<close> builds them (message and type; id and time stamp are
  left out). \<open>messageBuffer\<close> is the local variable of \<open>startReading\<close> that the read callback
  owns.
\<close>

record app_state =
  isDeviceConnected :: bool
  showTimeouts :: bool
  commandValues :: "string \<Rightarrow> string option"
  uploadedImages :: "UploadedImage list"
  imageLoopActive :: bool
  logs :: "(string \<times> log_type) list"
  deviceRef :: "string option"
  currentImageIndexRef :: nat
  imageLoopIntervalRef :: bool
  transferInProgressRef :: bool
  transferAbortedRef :: bool
  lastTransferActivityRef :: int
  messageBuffer :: string
  written :: "write_op list"
  linkError :: "string option"

record render =
  r_isDeviceConnected :: bool
  r_showTimeouts :: bool
  r_commandValues :: "string \<Rightarrow> string option"
  r_uploadedImages :: "UploadedImage list"
  r_imageLoopActive :: bool

definition render_of :: "app_state \<Rightarrow> render" where
  "render_of s = \<lparr> r_isDeviceConnected = isDeviceConnected s,
                   r_showTimeouts = showTimeouts s,
                   r_commandValues = commandValues s,
                   r_uploadedImages = uploadedImages s,
                   r_imageLoopActive = imageLoopActive s \<rparr>"

subsection \<open>Monitor and channel writes\<close>

definition addMonitorEntry :: "render \<Rightarrow> string \<Rightarrow> log_type \<Rightarrow> app_state \<Rightarrow> app_state" where
  "addMonitorEntry r message ty s =
     (if ty = TIMEOUT \<and> \<not> r_showTimeouts r then s
      else s\<lparr>logs := (message, ty) # logs s\<rparr>)"

text \<open>A write either rejects with the link's error or is appended to \<open>written\<close>.\<close>

definition usbWrite :: "write_op \<Rightarrow> app_state \<Rightarrow> string + app_state" where
  "usbWrite w s =
     (case linkError s of
        Some msg \<Rightarrow> Inl msg
      | None \<Rightarrow> Inr (s\<lparr>written := written s @ [w]\<rparr>))"

subsection \<open>Abort and the watchdog\<close>

text \<open>
  \<open>abortTransfer\<close> is an \<open>async\<close> function. Up to its \<open>await\<close> it runs at the call: the
  guard, and the write handed to the native module (\<open>abortTransferCall\<close>). What follows the
  \<open>await\<close> (\<open>abortTransferResume\<close>: the log entry when the write resolved, nothing but
  \<open>console.error\<close> when it rejected, then the two flags) runs once the calling callback has
  returned. The write's promise is taken to settle before the next timer or read event.
  The value passed between the two halves says whether the guard held and the write resolved.
\<close>

definition abortTransferCall :: "app_state \<Rightarrow> bool option \<times> app_state" where
  "abortTransferCall s =
     (if transferInProgressRef s \<and> deviceRef s \<noteq> None then
        (case usbWrite (Write (''ABORT'' @ [LF])) s of
           Inr s' \<Rightarrow> (Some True, s')
         | Inl _ \<Rightarrow> (Some False, s))
      else (None, s))"

definition abortTransferResume :: "render \<Rightarrow> bool option \<Rightarrow> app_state \<Rightarrow> app_state" where
  "abortTransferResume r pending s =
     (case pending of
        None \<Rightarrow> s
      | Some resolved \<Rightarrow>
          (let s1 = (if resolved then addMonitorEntry r ''Sent abort command'' WARNING s else s)
           in s1\<lparr>transferAbortedRef := True, transferInProgressRef := False\<rparr>))"

definition abortTransfer :: "render \<Rightarrow> app_state \<Rightarrow> app_state" where
  "abortTransfer r s =
     (case abortTransferCall s of (pending, s1) \<Rightarrow> abortTransferResume r pending s1)"

text \<open>The body of the \<open>setInterval(..., 1000)\<close> callback, run at time \<open>now\<close>.\<close>

definition timeoutCheck :: "render \<Rightarrow> int \<Rightarrow> app_state \<Rightarrow> app_state" where
  "timeoutCheck r now s =
     (if transferInProgressRef s \<and> now - lastTransferActivityRef s > TRANSFER_TIMEOUT then
        abortTransfer r (addMonitorEntry r ''Transfer timeout - no device response'' ERROR s)
      else s)"

subsection \<open>The read callback\<close>

text \<open>The first loop: is there a byte 82 (\<open>R\<close>)?\<close>

fun scanReady :: "char list \<Rightarrow> bool" where
  "scanReady [] = False"
| "scanReady (b # bs) = (if b = CHR ''R'' then True else scanReady bs)"

datatype ack = AckOk | AckError

text \<open>The second loop: the first byte that is 75 (\<open>K\<close>) or 69 (\<open>E\<close>).\<close>

fun scanAck :: "char list \<Rightarrow> ack option" where
  "scanAck [] = None"
| "scanAck (b # bs) =
     (if b = CHR ''K'' then Some AckOk
      else if b = CHR ''E'' then Some AckError
      else scanAck bs)"

text \<open>The \<open>for (const msg of messages)\<close> loop.\<close>

fun logMessages :: "render \<Rightarrow> string list \<Rightarrow> app_state \<Rightarrow> app_state" where
  "logMessages r [] s = s"
| "logMessages r (msg # msgs) s =
     logMessages r msgs
       (if trim msg \<noteq> [] then addMonitorEntry r (''Received: '' @ trim msg) SUCCESS s else s)"

text \<open>
  The sentinel scans of the text branch. \<open>abortTransfer()\<close> is called without \<open>await\<close>, so
  only its first half runs here; the pending second half is returned to the caller.
\<close>

definition scanFrameLost :: "render \<Rightarrow> app_state \<Rightarrow> bool option \<times> app_state" where
  "scanFrameLost r s =
     (if includesStr (messageBuffer s) FRAME_LOST then
        (let a = addMonitorEntry r ''FRAME_LOST detected!'' ERROR s;
             b = a\<lparr>transferAbortedRef := True\<rparr>;
             (pending, c) = (if transferInProgressRef b then abortTransferCall b else (None, b))
         in (pending, c\<lparr>messageBuffer := removeFirst FRAME_LOST (messageBuffer c)\<rparr>))
      else (None, s))"

definition scanInvalidCmd :: "render \<Rightarrow> app_state \<Rightarrow> app_state" where
  "scanInvalidCmd r s =
     (if includesStr (messageBuffer s) INVALID_CMD then
        (let a = addMonitorEntry r ''Received: INVALID_CMD'' ERROR s
         in a\<lparr>messageBuffer := removeFirst INVALID_CMD (messageBuffer a)\<rparr>)
      else s)"

text \<open>The text branch: append, scan for the sentinels, split, keep the last segment, log.\<close>

definition processText :: "render \<Rightarrow> char list \<Rightarrow> app_state \<Rightarrow> bool option \<times> app_state" where
  "processText r data s =
     (let s1 = s\<lparr>messageBuffer := messageBuffer s @ decode data\<rparr>;
          (pending, s2) = scanFrameLost r s1;
          s3 = scanInvalidCmd r s2;
          messages = splitLines (messageBuffer s3);
          s4 = s3\<lparr>messageBuffer := last messages\<rparr>
      in (pending, logMessages r (butlast messages) s4))"

text \<open>The callback given to \<open>UsbSerial.read\<close>, run at time \<open>now\<close> on the chunk \<open>data\<close>.\<close>

definition onData :: "render \<Rightarrow> int \<Rightarrow> char list \<Rightarrow> app_state \<Rightarrow> app_state" where
  "onData r now data s =
     (if \<not> r_isDeviceConnected r then s
      else
        (let (pending, s1) =
           (if scanReady data then (None, s\<lparr>lastTransferActivityRef := now\<rparr>)
            else
              (case scanAck data of
                 Some AckOk \<Rightarrow>
                   (None, s\<lparr>lastTransferActivityRef := now, transferInProgressRef := False\<rparr>)
               | Some AckError \<Rightarrow>
                   (None, s\<lparr>lastTransferActivityRef := now, transferInProgressRef := False,
                            transferAbortedRef := True\<rparr>)
               | None \<Rightarrow> processText r data s))
         in abortTransferResume r pending (s1\<lparr>lastTransferActivityRef := now\<rparr>)))"

subsection \<open>Events that interleave with an awaiting function\<close>

text \<open>
  While a function waits (a fixed delay, or the polling promise below), the read callback and
  the watchdog may run. Both were created by \<open>startReading\<close> and hold the bindings of its
  render, \<open>rr\<close>. Each event carries the value \<open>Date.now()\<close> has when it runs.
\<close>

datatype env_event = Inbound int "char list" | WatchdogTick int

fun runEvent :: "render \<Rightarrow> env_event \<Rightarrow> app_state \<Rightarrow> app_state" where
  "runEvent rr (Inbound now data) s = onData rr now data s"
| "runEvent rr (WatchdogTick now) s = timeoutCheck rr now s"

fun runEvents :: "render \<Rightarrow> env_event list \<Rightarrow> app_state \<Rightarrow> app_state" where
  "runEvents rr [] s = s"
| "runEvents rr (e # es) s = runEvents rr es (runEvent rr e s)"

text \<open>
  The promise of the two waits: \<open>setTimeout(reject, 500)\<close> is set first, then a
  \<open>setInterval\<close> of 10 ms polls the two flags. The interval fires 49 times (10 ms to 490 ms)
  before the timeout does. \<open>evs\<close> gives, for each 10 ms slice, the events that run in it.
  The result is \<open>None\<close> when the promise resolves and \<open>Some message\<close> when it rejects. In the
  interval callback the \<open>aborted\<close> test comes first, and a promise settles once, so an
  aborted transfer rejects even when \<open>transferInProgressRef\<close> is already false.
\<close>

definition POLLS :: nat where "POLLS = 49"

definition slice :: "env_event list list \<Rightarrow> env_event list" where
  "slice evs = (case evs of [] \<Rightarrow> [] | e # _ \<Rightarrow> e)"

fun awaitSignal ::
  "render \<Rightarrow> string \<Rightarrow> nat \<Rightarrow> env_event list list \<Rightarrow> app_state \<Rightarrow> string option \<times> app_state" where
  "awaitSignal rr msg 0 evs s = (Some msg, runEvents rr (slice evs) s)"
| "awaitSignal rr msg (Suc n) evs s =
     (let s1 = runEvents rr (slice evs) s
      in if transferAbortedRef s1 then (Some ''Transfer aborted'', s1)
         else if \<not> transferInProgressRef s1 then (None, s1)
         else awaitSignal rr msg n (tl evs) s1)"

subsection \<open>Sending one image\<close>

text \<open>\<open>Buffer.prototype.toString('hex')\<close>: two lower-case digits per byte.\<close>

definition hexDigit :: "nat \<Rightarrow> char" where
  "hexDigit d = ''0123456789abcdef'' ! d"

definition hexByte :: "char \<Rightarrow> string" where
  "hexByte b = [hexDigit (of_char b div 16), hexDigit (of_char b mod 16)]"

definition toHex :: "char list \<Rightarrow> string" where
  "toHex bs = concat (map hexByte bs)"

text \<open>\<open>DataView.prototype.setUint32(offset, v, true)\<close>: \<open>v\<close> modulo \<open>2^32\<close>, low byte first.\<close>

definition setUint32LE :: "nat \<Rightarrow> char list" where
  "setUint32LE v =
     (let w = v mod 2 ^ 32
      in map char_of [w mod 256, w div 256 mod 256, w div 65536 mod 256, w div 16777216 mod 256])"

text \<open>The eight bytes of \<open>header\<close>: the magic at offset 0, the length at offset 4.\<close>

definition frameHeader :: "nat \<Rightarrow> char list" where
  "frameHeader len = setUint32LE FRAME_MAGIC @ setUint32LE len"

text \<open>JavaScript's \<open>!x\<close> on \<open>string | null\<close>: \<open>null\<close> and the empty string.\<close>

definition falsy :: "string option \<Rightarrow> bool" where
  "falsy x = (x = None \<or> x = Some [])"

record schedule =
  duringGrace :: "env_event list"
  duringReadyWait :: "env_event list list"
  duringAckWait :: "env_event list list"

text \<open>
  The \<open>try\<close> block of \<open>sendImageToDevice\<close>, after the two flags are set. \<open>fromBase64\<close> stands
  for \<open>Buffer.from(_, 'base64')\<close> of the \<open>buffer\<close> package. The result is \<open>Some message\<close> when
  an \<open>Error(message)\<close> is thrown inside the block.
\<close>

definition sendImageTry ::
  "(string \<Rightarrow> char list) \<Rightarrow> render \<Rightarrow> render \<Rightarrow> schedule \<Rightarrow> string \<Rightarrow> app_state
     \<Rightarrow> string option \<times> app_state" where
  "sendImageTry fromBase64 rr r sch imageData s0 =
     (case usbWrite (Write (''START_RTIMAGE'' @ [LF])) s0 of
        Inl e \<Rightarrow> (Some e, s0)
      | Inr s1 \<Rightarrow>
          (let s2 = addMonitorEntry r ''Sent START_RTIMAGE'' INFO s1;
               s3 = runEvents rr (duringGrace sch) s2;
               binaryData = fromBase64 imageData;
               header = frameHeader (length binaryData)
           in case usbWrite (WriteHexString (toHex header)) s3 of
                Inl e \<Rightarrow> (Some e, s3)
              | Inr s4 \<Rightarrow>
                  (let s5 = addMonitorEntry r
                              (''Sent image header: '' @ decimal (length binaryData) @ '' bytes'')
                              INFO s4
                   in case awaitSignal rr ''Timeout waiting for ready signal'' POLLS
                             (duringReadyWait sch) s5 of
                        (Some e, s6) \<Rightarrow> (Some e, s6)
                      | (None, s6) \<Rightarrow>
                          (let s7 = addMonitorEntry r ''Device ready for image data'' INFO s6
                           in if transferAbortedRef s7 then (Some ''Transfer aborted'', s7)
                              else
                                (case usbWrite (WriteHexString (toHex binaryData)) s7 of
                                   Inl e \<Rightarrow> (Some e, s7)
                                 | Inr s8 \<Rightarrow>
                                     (let s9 = addMonitorEntry r
                                                 (''Sent image data: ''
                                                    @ decimal (length binaryData) @ '' bytes'')
                                                 INFO s8
                                      in case awaitSignal rr
                                                ''Timeout waiting for acknowledgment'' POLLS
                                                (duringAckWait sch) s9 of
                                           (Some e, s10) \<Rightarrow> (Some e, s10)
                                         | (None, s10) \<Rightarrow>
                                             (None,
                                              addMonitorEntry r ''Image sent successfully''
                                                SUCCESS s10)))))))"

text \<open>
  \<open>sendImageToDevice\<close>: the guard throws before anything else happens; the \<open>catch\<close> clears
  \<open>transferInProgressRef\<close> and rethrows with a prefix. \<open>rr\<close> is the render of the read
  callback and the watchdog, \<open>r\<close> the render of this closure.
\<close>

definition sendImageToDevice ::
  "(string \<Rightarrow> char list) \<Rightarrow> render \<Rightarrow> render \<Rightarrow> schedule \<Rightarrow> string option \<Rightarrow> app_state
     \<Rightarrow> string option \<times> app_state" where
  "sendImageToDevice fromBase64 rr r sch imageData s =
     (if \<not> r_isDeviceConnected r \<or> deviceRef s = None \<or> falsy imageData then
        (Some ''Not connected to device or invalid image data'', s)
      else
        (case sendImageTry fromBase64 rr r sch (the imageData)
                (s\<lparr>transferInProgressRef := True, transferAbortedRef := False\<rparr>) of
           (None, s') \<Rightarrow> (None, s')
         | (Some e, s') \<Rightarrow>
             (Some (''Failed to send image: '' @ e), s'\<lparr>transferInProgressRef := False\<rparr>)))"

subsection \<open>The image loop\<close>

definition stopImageLoop :: "render \<Rightarrow> app_state \<Rightarrow> app_state" where
  "stopImageLoop r s =
     (if imageLoopIntervalRef s then
        addMonitorEntry r ''Image loop stopped'' INFO
          (s\<lparr>imageLoopIntervalRef := False, imageLoopActive := False\<rparr>)
      else s)"

text \<open>
  Reading \<open>uploadedImages[i]\<close> past the end gives \<open>undefined\<close>, and \<open>currentImage.base64\<close>
  then throws a \<open>TypeError\<close> inside the \<open>try\<close>. Its message depends on the engine; this is
  the text Hermes gives.
\<close>

definition typeErrorMessage :: string where
  "typeErrorMessage = ''Cannot read property 'base64' of undefined''"

text \<open>
  \<open>displayNextImage\<close> is declared inside \<open>startImageLoop\<close>: the \<open>uploadedImages\<close> and
  \<open>isDeviceConnected\<close> it reads are those of the render in which \<open>startImageLoop\<close> was
  called, for every later run from \<open>setInterval\<close> too.
\<close>

definition displayNextImage ::
  "(string \<Rightarrow> char list) \<Rightarrow> render \<Rightarrow> render \<Rightarrow> schedule \<Rightarrow> app_state \<Rightarrow> app_state" where
  "displayNextImage fromBase64 rr r sch s =
     (if \<not> r_isDeviceConnected r \<or> r_uploadedImages r = [] then stopImageLoop r s
      else if length (r_uploadedImages r) \<le> currentImageIndexRef s then
        stopImageLoop r
          (addMonitorEntry r (''Error in image loop: '' @ typeErrorMessage) ERROR s)
      else
        (case sendImageToDevice fromBase64 rr r sch
                (base64 (r_uploadedImages r ! currentImageIndexRef s)) s of
           (Some e, s1) \<Rightarrow>
             stopImageLoop r (addMonitorEntry r (''Error in image loop: '' @ e) ERROR s1)
         | (None, s1) \<Rightarrow>
             (let s2 = s1\<lparr>currentImageIndexRef :=
                           (currentImageIndexRef s1 + 1) mod length (r_uploadedImages r)\<rparr>
              in addMonitorEntry r
                   (''Displaying image '' @ decimal (currentImageIndexRef s2 + 1) @ '' of ''
                      @ decimal (length (r_uploadedImages r)))
                   INFO s2)))"

definition startImageLoop ::
  "(string \<Rightarrow> char list) \<Rightarrow> render \<Rightarrow> render \<Rightarrow> schedule \<Rightarrow> app_state \<Rightarrow> app_state" where
  "startImageLoop fromBase64 rr r sch s =
     (if \<not> r_isDeviceConnected r \<or> r_uploadedImages r = [] then s
      else
        (let s1 = stopImageLoop r s;
             s2 = s1\<lparr>currentImageIndexRef := 0, imageLoopActive := True\<rparr>;
             s3 = displayNextImage fromBase64 rr r sch s2;
             s4 = s3\<lparr>imageLoopIntervalRef := True\<rparr>
         in addMonitorEntry r ''Started image loop'' INFO s4))"

text \<open>One firing of \<open>setInterval(displayNextImage, IMAGE_DISPLAY_INTERVAL)\<close>.\<close>

definition loopTick ::
  "(string \<Rightarrow> char list) \<Rightarrow> render \<Rightarrow> render \<Rightarrow> schedule \<Rightarrow> app_state \<Rightarrow> app_state" where
  "loopTick fromBase64 rr r sch s =
     (if imageLoopIntervalRef s then displayNextImage fromBase64 rr r sch s else s)"

subsection \<open>The image list\<close>

text \<open>\<open>newImages.splice(index, 1)\<close> on a copy; an index past the end removes nothing.\<close>

definition splice1 :: "nat \<Rightarrow> 'a list \<Rightarrow> 'a list" where
  "splice1 index xs = take index xs @ drop (Suc index) xs"

definition removeImage :: "render \<Rightarrow> nat \<Rightarrow> app_state \<Rightarrow> app_state" where
  "removeImage r index s =
     (let s1 = s\<lparr>uploadedImages := splice1 index (uploadedImages s)\<rparr>
      in if r_imageLoopActive r \<and> length (r_uploadedImages r) \<le> 1 then stopImageLoop r s1
         else s1)"

text \<open>
  How an operation that writes a command ends. \<open>LinkFailed e\<close>: the write rejected, the
  \<open>catch\<close> logged the error and called \<open>handleConnectionError\<close>; the reconnection it
  attempts is not part of this development.
\<close>

datatype cmd_result = Completed | Refused | LinkFailed string


text \<open>\<open>evs\<close>: what runs during the 500 ms delay.\<close>

definition clearImage ::
  "render \<Rightarrow> render \<Rightarrow> env_event list \<Rightarrow> app_state \<Rightarrow> cmd_result \<times> app_state" where
  "clearImage rr r evs s =
     (if \<not> r_isDeviceConnected r \<or> deviceRef s = None then
        (Refused, addMonitorEntry r ''Not connected to device'' ERROR s)
      else
        (case usbWrite (Write (''CLEAR_IMAGE'' @ [LF])) s of
           Inl e \<Rightarrow> (LinkFailed e, addMonitorEntry r (''Error clearing image: '' @ e) ERROR s)
         | Inr s1 \<Rightarrow>
             (let s2 = addMonitorEntry r ''Sent clear image command'' INFO s1;
                  s3 = runEvents rr evs s2;
                  s4 = s3\<lparr>transferInProgressRef := False, transferAbortedRef := False\<rparr>
              in (Completed, addMonitorEntry r ''Image cleared successfully'' SUCCESS s4))))"










subsection \<open>Commands\<close>

definition isDigit :: "char \<Rightarrow> bool" where
  "isDigit c = (48 \<le> (of_char c :: nat) \<and> (of_char c :: nat) \<le> 57)"

text \<open>
  \<open>commandValue.match(/SCREENTIME\*\*(\d+)/)\<close>: the leftmost place where the literal is
  followed by a digit; the group is the longest run of digits there.
\<close>

fun matchScreentime :: "string \<Rightarrow> string option" where
  "matchScreentime [] = None"
| "matchScreentime (c # cs) =
     (if prefix ''SCREENTIME**'' (c # cs) \<and> takeWhile isDigit (drop 12 (c # cs)) \<noteq> [] then
        Some (takeWhile isDigit (drop 12 (c # cs)))
      else matchScreentime cs)"

text \<open>
  \<open>Number.parseInt(digits, 10)\<close> on a string of digits. The double it returns is rounded for
  more than 15 digits; the comparisons with 30 and 300 come out as for the exact number.
\<close>

definition parseInt :: "string \<Rightarrow> nat" where
  "parseInt ds = foldl (\<lambda>acc c. 10 * acc + (of_char c - 48)) 0 ds"

definition executeCommand :: "render \<Rightarrow> string \<Rightarrow> app_state \<Rightarrow> cmd_result \<times> app_state" where
  "executeCommand r commandId s =
     (if \<not> r_isDeviceConnected r \<or> deviceRef s = None then
        (Refused, addMonitorEntry r ''Please connect to device first'' ERROR s)
      else
        (let s1 = (if imageLoopIntervalRef s then
                     addMonitorEntry r ''Image loop stopped due to new command'' INFO
                       (s\<lparr>imageLoopIntervalRef := False, imageLoopActive := False\<rparr>)
                   else s);
             commandValue = map_option trim (r_commandValues r commandId)
         in if falsy commandValue then
              (Refused, addMonitorEntry r ''Command cannot be empty'' ERROR s1)
            else if commandId = ''screentimeCommand''
                    \<and> matchScreentime (the commandValue) = None then
              (Refused,
               addMonitorEntry r ''Invalid SCREENTIME format. Use SCREENTIME**<seconds>''
                 ERROR s1)
            else if commandId = ''screentimeCommand''
                    \<and> (parseInt (the (matchScreentime (the commandValue))) < 30
                       \<or> parseInt (the (matchScreentime (the commandValue))) > 300) then
              (Refused,
               addMonitorEntry r ''Screen time must be between 30 and 300 seconds'' ERROR s1)
            else
              (case usbWrite (Write (the commandValue @ [LF])) s1 of
                 Inr s2 \<Rightarrow>
                   (Completed,
                    addMonitorEntry r (''Sent command: '' @ the commandValue) SENT s2)
               | Inl e \<Rightarrow>
                   (LinkFailed e, addMonitorEntry r (''Command error: '' @ e) ERROR s1))))"

subsection \<open>Concrete data for the examples\<close>

text \<open>
  An instance of \<open>Buffer.from(_, 'base64')\<close> for the worked examples: the standard alphabet
  (with the URL-safe \<open>-\<close> and \<open>_\<close>), characters outside it skipped, decoding up to the
  first \<open>=\<close>. The general theorems hold for every decoder.
\<close>

definition b64Value :: "char \<Rightarrow> nat option" where
  "b64Value c =
     (let n = (of_char c :: nat)
      in if 65 \<le> n \<and> n \<le> 90 then Some (n - 65)
         else if 97 \<le> n \<and> n \<le> 122 then Some (n - 71)
         else if 48 \<le> n \<and> n \<le> 57 then Some (n + 4)
         else if n = 43 \<or> n = 45 then Some 62
         else if n = 47 \<or> n = 95 then Some 63
         else None)"

fun b64Group :: "nat list \<Rightarrow> char list" where
  "b64Group (a # b # c # d # rest) =
     map char_of [a * 4 + b div 16, (b mod 16) * 16 + c div 4, (c mod 4) * 64 + d]
       @ b64Group rest"
| "b64Group [a, b, c] = map char_of [a * 4 + b div 16, (b mod 16) * 16 + c div 4]"
| "b64Group [a, b] = [char_of (a * 4 + b div 16)]"
| "b64Group _ = []"

definition base64Std :: "string \<Rightarrow> char list" where
  "base64Std s = b64Group (List.map_filter b64Value (takeWhile (\<lambda>c. c \<noteq> CHR ''='') s))"

text \<open>A connected application with nothing going on, and the render that shows it.\<close>

definition idleState :: app_state where
  "idleState =
     \<lparr> isDeviceConnected = True, showTimeouts = False, commandValues = Map.empty,
       uploadedImages = [], imageLoopActive = False, logs = [], deviceRef = Some ''dev1'',
       currentImageIndexRef = 0, imageLoopIntervalRef = False, transferInProgressRef = False,
       transferAbortedRef = False, lastTransferActivityRef = 0, messageBuffer = [],
       written = [], linkError = None \<rparr>"

definition idleRender :: render where
  "idleRender = render_of idleState"

text \<open>The same application with a transfer in progress since time 0.\<close>

definition busyState :: app_state where
  "busyState = idleState\<lparr>transferInProgressRef := True\<rparr>"

subsection \<open>Vocabulary of the statements\<close>

definition ABORT_WRITE :: write_op where
  "ABORT_WRITE = Write (''ABORT'' @ [LF])"

text \<open>
  \<open>abortsOnly s s'\<close>: from \<open>s\<close> to \<open>s'\<close> the link, the device, the loop index and the image
  list are unchanged, and the channel has received nothing but \<open>ABORT\<close> commands.
\<close>

definition abortsOnly :: "app_state \<Rightarrow> app_state \<Rightarrow> bool" where
  "abortsOnly s s' =
     (linkError s' = linkError s \<and> deviceRef s' = deviceRef s
      \<and> currentImageIndexRef s' = currentImageIndexRef s
      \<and> uploadedImages s' = uploadedImages s
      \<and> (\<exists>k. written s' = written s @ replicate k ABORT_WRITE))"




text \<open>
  Two environments for a send: the device answers the header with \<open>R\<close> 10 ms into the
  wait and nothing else arrives; or it answers the header with \<open>K\<close>.
\<close>

definition readySchedule :: schedule where
  "readySchedule =
     \<lparr> duringGrace = [], duringReadyWait = [[Inbound 110 ''R'']], duringAckWait = [] \<rparr>"

definition ackSchedule :: schedule where
  "ackSchedule =
     \<lparr> duringGrace = [], duringReadyWait = [[Inbound 110 ''K'']], duringAckWait = [] \<rparr>"

text \<open>A render whose screen-time field holds \<open>v\<close>.\<close>

definition screentimeRender :: "string \<Rightarrow> render" where
  "screentimeRender v = idleRender\<lparr>r_commandValues := [''screentimeCommand'' \<mapsto> v]\<rparr>"

text \<open>
  Three images whose payloads are the single bytes \<open>A\<close>, \<open>B\<close> and \<open>C\<close>, and the application
  with these three uploaded.
\<close>

definition img0 :: UploadedImage where
  "img0 = \<lparr> uri = ''file:///0.png'', type = Some ''image/png'', name = Some ''0.png'',
            base64 = Some ''QQ=='' \<rparr>"

definition img1 :: UploadedImage where
  "img1 = \<lparr> uri = ''file:///1.png'', type = Some ''image/png'', name = Some ''1.png'',
            base64 = Some ''Qg=='' \<rparr>"

definition img2 :: UploadedImage where
  "img2 = \<lparr> uri = ''file:///2.png'', type = Some ''image/png'', name = Some ''2.png'',
            base64 = Some ''Qw=='' \<rparr>"

definition threeImages :: app_state where
  "threeImages = idleState\<lparr>uploadedImages := [img0, img1, img2]\<rparr>"

text \<open>
  The loop is started in the render that shows the three images; its first send and the
  send of the next interval both succeed, which brings the index to 2. Then the second
  image is removed (in the render of that moment), and the interval fires once more.
\<close>

definition loopAtTwo :: app_state where
  "loopAtTwo =
     loopTick base64Std idleRender (render_of threeImages) ackSchedule
       (startImageLoop base64Std idleRender (render_of threeImages) ackSchedule threeImages)"

definition loopAfterRemoval :: app_state where
  "loopAfterRemoval = removeImage (render_of loopAtTwo) 1 loopAtTwo"

definition loopNextVisit :: app_state where
  "loopNextVisit =
     loopTick base64Std idleRender (render_of threeImages) ackSchedule loopAfterRemoval"



text \<open>
  The monitor entries that the loop over complete lines adds, oldest first: one per line
  that is not blank after trimming.
\<close>

definition textLines :: "string list \<Rightarrow> (string \<times> log_type) list" where
  "textLines msgs =
     map (\<lambda>msg. (''Received: '' @ trim msg, SUCCESS)) (filter (\<lambda>msg. trim msg \<noteq> []) msgs)"

text \<open>A render in which the field \<open>commandId\<close> holds \<open>v\<close>.\<close>

definition commandRender :: "string \<Rightarrow> string \<Rightarrow> render" where
  "commandRender commandId v = idleRender\<lparr>r_commandValues := [commandId \<mapsto> v]\<rparr>"

section \<open>Properties\<close>

subsection \<open>What log entries and events leave alone\<close>

lemma addMonitorEntry_fields [simp]:
  "written (addMonitorEntry r m ty s) = written s"
  "linkError (addMonitorEntry r m ty s) = linkError s"
  "deviceRef (addMonitorEntry r m ty s) = deviceRef s"
  "transferInProgressRef (addMonitorEntry r m ty s) = transferInProgressRef s"
  "transferAbortedRef (addMonitorEntry r m ty s) = transferAbortedRef s"
  "messageBuffer (addMonitorEntry r m ty s) = messageBuffer s"
  "lastTransferActivityRef (addMonitorEntry r m ty s) = lastTransferActivityRef s"
  "currentImageIndexRef (addMonitorEntry r m ty s) = currentImageIndexRef s"
  "uploadedImages (addMonitorEntry r m ty s) = uploadedImages s"
  "imageLoopIntervalRef (addMonitorEntry r m ty s) = imageLoopIntervalRef s"
  by (simp_all add: addMonitorEntry_def)

lemma logMessages_fields [simp]:
  "written (logMessages r ms s) = written s"
  "linkError (logMessages r ms s) = linkError s"
  "deviceRef (logMessages r ms s) = deviceRef s"
  "transferInProgressRef (logMessages r ms s) = transferInProgressRef s"
  "transferAbortedRef (logMessages r ms s) = transferAbortedRef s"
  "messageBuffer (logMessages r ms s) = messageBuffer s"
  "currentImageIndexRef (logMessages r ms s) = currentImageIndexRef s"
  "uploadedImages (logMessages r ms s) = uploadedImages s"
  by (induction ms arbitrary: s; simp)+

lemma abortsOnly_refl [simp]: "abortsOnly s s"
  by (simp add: abortsOnly_def)

lemma abortsOnly_trans [trans]: "abortsOnly a b \<Longrightarrow> abortsOnly b c \<Longrightarrow> abortsOnly a c"
  unfolding abortsOnly_def
  by (auto simp: replicate_add [symmetric] simp del: replicate_add)

lemma abortsOnly_one:
  "linkError s' = linkError s \<Longrightarrow> deviceRef s' = deviceRef s
   \<Longrightarrow> currentImageIndexRef s' = currentImageIndexRef s
   \<Longrightarrow> uploadedImages s' = uploadedImages s
   \<Longrightarrow> written s' = written s @ [ABORT_WRITE] \<Longrightarrow> abortsOnly s s'"
  unfolding abortsOnly_def by (auto intro: exI [of _ 1])

lemma abortsOnly_same:
  "linkError s' = linkError s \<Longrightarrow> deviceRef s' = deviceRef s
   \<Longrightarrow> currentImageIndexRef s' = currentImageIndexRef s
   \<Longrightarrow> uploadedImages s' = uploadedImages s
   \<Longrightarrow> written s' = written s \<Longrightarrow> abortsOnly s s'"
  unfolding abortsOnly_def by (auto intro: exI [of _ 0])

lemma abortTransferCall_abortsOnly: "abortsOnly s (snd (abortTransferCall s))"
  by (auto simp: abortTransferCall_def usbWrite_def ABORT_WRITE_def
      intro: abortsOnly_one abortsOnly_same split: option.splits)

lemma abortTransferResume_abortsOnly: "abortsOnly s (abortTransferResume r p s)"
  by (auto simp: abortTransferResume_def intro: abortsOnly_same split: option.splits)

lemma abortTransfer_abortsOnly: "abortsOnly s (abortTransfer r s)"
  unfolding abortTransfer_def
  using abortsOnly_trans [OF abortTransferCall_abortsOnly abortTransferResume_abortsOnly]
  by (simp add: split_def)

lemma timeoutCheck_abortsOnly: "abortsOnly s (timeoutCheck r now s)"
proof -
  have "abortsOnly s (addMonitorEntry r ''Transfer timeout - no device response'' ERROR s)"
    by (rule abortsOnly_same) simp_all
  from abortsOnly_trans [OF this abortTransfer_abortsOnly]
  show ?thesis by (simp add: timeoutCheck_def)
qed

lemma scanFrameLost_abortsOnly: "abortsOnly s (snd (scanFrameLost r s))"
proof (cases "includesStr (messageBuffer s) FRAME_LOST")
  case False
  then show ?thesis by (simp add: scanFrameLost_def)
next
  case True
  let ?b = "(addMonitorEntry r ''FRAME_LOST detected!'' ERROR s)\<lparr>transferAbortedRef := True\<rparr>"
  have 1: "abortsOnly s ?b" by (rule abortsOnly_same) simp_all
  have 2: "abortsOnly ?b (snd (abortTransferCall ?b))" by (rule abortTransferCall_abortsOnly)
  let ?c = "snd (if transferInProgressRef ?b then abortTransferCall ?b else (None, ?b))"
  have 3: "abortsOnly s ?c" using 1 abortsOnly_trans [OF 1 2] by simp
  have 4: "abortsOnly ?c (?c\<lparr>messageBuffer := removeFirst FRAME_LOST (messageBuffer ?c)\<rparr>)"
    by (rule abortsOnly_same) simp_all
  from abortsOnly_trans [OF 3 4] True show ?thesis
    by (simp add: scanFrameLost_def Let_def split_def)
qed

lemma scanInvalidCmd_abortsOnly: "abortsOnly s (scanInvalidCmd r s)"
  by (auto simp: scanInvalidCmd_def Let_def intro: abortsOnly_same)

lemma processText_abortsOnly: "abortsOnly s (snd (processText r data s))"
proof -
  let ?s1 = "s\<lparr>messageBuffer := messageBuffer s @ decode data\<rparr>"
  let ?s2 = "snd (scanFrameLost r ?s1)"
  let ?s3 = "scanInvalidCmd r ?s2"
  let ?s4 = "?s3\<lparr>messageBuffer := last (splitLines (messageBuffer ?s3))\<rparr>"
  let ?s5 = "logMessages r (butlast (splitLines (messageBuffer ?s3))) ?s4"
  have "abortsOnly s ?s1" by (rule abortsOnly_same) simp_all
  also have "abortsOnly ?s1 ?s2" by (rule scanFrameLost_abortsOnly)
  also have "abortsOnly ?s2 ?s3" by (rule scanInvalidCmd_abortsOnly)
  also have "abortsOnly ?s3 ?s4" by (rule abortsOnly_same) simp_all
  also have "abortsOnly ?s4 ?s5" by (rule abortsOnly_same) simp_all
  finally have "abortsOnly s ?s5" .
  then show ?thesis by (simp add: processText_def Let_def split_def)
qed

lemma onData_abortsOnly: "abortsOnly s (onData r now data s)"
proof -
  have resume: "abortsOnly s (abortTransferResume r p (s'\<lparr>lastTransferActivityRef := now\<rparr>))"
    if "abortsOnly s s'" for p s'
  proof -
    note that
    also have "abortsOnly s' (s'\<lparr>lastTransferActivityRef := now\<rparr>)"
      by (rule abortsOnly_same) simp_all
    also have "abortsOnly (s'\<lparr>lastTransferActivityRef := now\<rparr>)
                 (abortTransferResume r p (s'\<lparr>lastTransferActivityRef := now\<rparr>))"
      by (rule abortTransferResume_abortsOnly)
    finally show ?thesis .
  qed
  show ?thesis
  proof (cases "r_isDeviceConnected r")
    case False
    then show ?thesis by (simp add: onData_def)
  next
    case True
    show ?thesis
    proof (cases "scanReady data")
      case ready: True
      have "abortsOnly s (s\<lparr>lastTransferActivityRef := now\<rparr>)"
        by (rule abortsOnly_same) simp_all
      from resume [OF this] True ready show ?thesis by (simp add: onData_def)
    next
      case noReady: False
      show ?thesis
      proof (cases "scanAck data")
        case None
        from resume [OF processText_abortsOnly] True noReady None
        show ?thesis by (simp add: onData_def split_def Let_def)
      next
        case (Some a)
        have "abortsOnly s (s\<lparr>lastTransferActivityRef := now, transferInProgressRef := False\<rparr>)"
          "abortsOnly s (s\<lparr>lastTransferActivityRef := now, transferInProgressRef := False,
                            transferAbortedRef := True\<rparr>)"
          by (rule abortsOnly_same; simp)+
        from this [THEN resume] True noReady Some
        show ?thesis by (cases a) (simp_all add: onData_def)
      qed
    qed
  qed
qed

lemma runEvent_abortsOnly: "abortsOnly s (runEvent rr e s)"
  by (cases e) (simp_all add: onData_abortsOnly timeoutCheck_abortsOnly)

lemma runEvents_abortsOnly: "abortsOnly s (runEvents rr es s)"
proof (induction es arbitrary: s)
  case Nil
  then show ?case by simp
next
  case (Cons e es)
  from abortsOnly_trans [OF runEvent_abortsOnly Cons.IH] show ?case by simp
qed

lemma awaitSignal_abortsOnly: "abortsOnly s (snd (awaitSignal rr msg n evs s))"
proof (induction n arbitrary: evs s)
  case 0
  then show ?case by (simp add: runEvents_abortsOnly)
next
  case (Suc n)
  have 1: "abortsOnly s (runEvents rr (slice evs) s)" by (rule runEvents_abortsOnly)
  from abortsOnly_trans [OF 1 Suc.IH] 1 show ?case by (simp add: Let_def)
qed

subsection \<open>The watchdog\<close>

lemma timeoutCheck_idle: "\<not> transferInProgressRef s \<Longrightarrow> timeoutCheck r now s = s"
  by (simp add: timeoutCheck_def)

lemma ticks_idle:
  "\<not> transferInProgressRef s \<Longrightarrow> runEvents rr (map WatchdogTick ts) s = s"
  by (induction ts) (simp_all add: timeoutCheck_idle)

text \<open>
  C6. A transfer is in progress, the last activity is more than 15000 ms before \<open>now\<close>, a
  device is open and the link accepts writes. Then the watchdog tick at \<open>now\<close> sets the
  aborted flag, clears the in-progress flag and writes \<open>ABORT\<close> once; every later sequence of
  ticks leaves the state as it is, so no second \<open>ABORT\<close> is written.
\<close>

theorem watchdog_aborts_once:
  assumes "transferInProgressRef s" and "now - lastTransferActivityRef s > 15000"
    and "deviceRef s \<noteq> None" and "linkError s = None"
  shows "transferAbortedRef (timeoutCheck r now s)
       \<and> \<not> transferInProgressRef (timeoutCheck r now s)
       \<and> written (timeoutCheck r now s) = written s @ [ABORT_WRITE]
       \<and> runEvents rr (map WatchdogTick ts) (timeoutCheck r now s) = timeoutCheck r now s"
proof -
  let ?s1 = "timeoutCheck r now s"
  have flags: "transferAbortedRef ?s1 \<and> \<not> transferInProgressRef ?s1"
    using assms
    by (simp add: timeoutCheck_def TRANSFER_TIMEOUT_def abortTransfer_def abortTransferCall_def
        abortTransferResume_def usbWrite_def)
  have wr: "written ?s1 = written s @ [ABORT_WRITE]"
    using assms
    by (simp add: timeoutCheck_def TRANSFER_TIMEOUT_def abortTransfer_def abortTransferCall_def
        abortTransferResume_def usbWrite_def ABORT_WRITE_def)
  from flags have "runEvents rr (map WatchdogTick ts) ?s1 = ?s1"
    by (simp add: ticks_idle)
  with flags wr show ?thesis by simp
qed

theorem watchdog_aborts_once_witness:
  "transferInProgressRef busyState \<and> 15001 - lastTransferActivityRef busyState > 15000
   \<and> deviceRef busyState \<noteq> None \<and> linkError busyState = None
   \<and> transferAbortedRef (timeoutCheck idleRender 15001 busyState)
   \<and> \<not> transferInProgressRef (timeoutCheck idleRender 15001 busyState)
   \<and> written (timeoutCheck idleRender 15001 busyState) = [ABORT_WRITE]
   \<and> runEvents idleRender (map WatchdogTick [16001, 17001])
        (timeoutCheck idleRender 15001 busyState) = timeoutCheck idleRender 15001 busyState"
proof -
  have h: "transferInProgressRef busyState" "15001 - lastTransferActivityRef busyState > 15000"
    "deviceRef busyState \<noteq> None" "linkError busyState = None"
    by (simp_all add: busyState_def idleState_def)
  from watchdog_aborts_once [OF h, of idleRender idleRender "[16001, 17001]"] h
  show ?thesis by (simp add: busyState_def idleState_def)
qed

subsection \<open>Clearing the image\<close>

text \<open>
  C9. Whenever \<open>clearImage\<close> completes (the command was written and the delay is over), the
  in-progress flag and the aborted flag are both false, whatever the state was before and
  whatever the read callback and the watchdog did during the delay.
\<close>

theorem clearImage_resets_flags:
  assumes "fst (clearImage rr r evs s) = Completed"
  shows "\<not> transferInProgressRef (snd (clearImage rr r evs s))
       \<and> \<not> transferAbortedRef (snd (clearImage rr r evs s))
       \<and> (\<exists>ws. written (snd (clearImage rr r evs s))
                  = written s @ Write (''CLEAR_IMAGE'' @ [LF]) # ws)"
proof -
  from assms have guard: "r_isDeviceConnected r" "deviceRef s \<noteq> None"
    by (auto simp: clearImage_def split: if_splits)
  from assms guard obtain s1 where w: "usbWrite (Write (''CLEAR_IMAGE'' @ [LF])) s = Inr s1"
    by (cases "usbWrite (Write (''CLEAR_IMAGE'' @ [LF])) s") (auto simp: clearImage_def)
  then have s1: "written s1 = written s @ [Write (''CLEAR_IMAGE'' @ [LF])]"
    by (auto simp: usbWrite_def split: option.splits)
  let ?s2 = "addMonitorEntry r ''Sent clear image command'' INFO s1"
  from runEvents_abortsOnly [of ?s2 rr evs]
  obtain k where "written (runEvents rr evs ?s2) = written ?s2 @ replicate k ABORT_WRITE"
    by (auto simp: abortsOnly_def)
  with s1 guard w show ?thesis
    by (simp add: clearImage_def Let_def)
qed

theorem clearImage_resets_flags_witness:
  "fst (clearImage idleRender idleRender [Inbound 100 ''E''] busyState) = Completed
   \<and> \<not> transferInProgressRef (snd (clearImage idleRender idleRender [Inbound 100 ''E''] busyState))
   \<and> \<not> transferAbortedRef (snd (clearImage idleRender idleRender [Inbound 100 ''E''] busyState))"
proof -
  have h: "fst (clearImage idleRender idleRender [Inbound 100 ''E''] busyState) = Completed"
    by (simp add: clearImage_def usbWrite_def busyState_def idleState_def idleRender_def
        render_of_def Let_def)
  from clearImage_resets_flags [OF h] h show ?thesis by simp
qed

subsection \<open>Sending one image\<close>

lemma abortsOnly_written:
  "abortsOnly s s' \<Longrightarrow> \<exists>k. written s' = written s @ replicate k ABORT_WRITE"
  by (simp add: abortsOnly_def)











lemma hexByte_length: "length (hexByte b) = 2"
  by (simp add: hexByte_def)







lemmas eval_defs = sendImageToDevice_def sendImageTry_def usbWrite_def falsy_def
  idleState_def idleRender_def render_of_def busyState_def addMonitorEntry_def Let_def
  onData_def timeoutCheck_def abortTransferResume_def slice_def
  toHex_def frameHeader_def setUint32LE_def FRAME_MAGIC_def hexByte_def hexDigit_def
  base64Std_def b64Value_def List.map_filter_def char_of_eq_iff decimal.simps digitChar_def
  LF_def CR_def

lemma awaitSignal_numeral:
  "awaitSignal rr msg (numeral k) evs s =
     (let s1 = runEvents rr (slice evs) s
      in if transferAbortedRef s1 then (Some ''Transfer aborted'', s1)
         else if \<not> transferInProgressRef s1 then (None, s1)
         else awaitSignal rr msg (pred_numeral k) (tl evs) s1)"
  by (simp add: numeral_eq_Suc)


text \<open>
  C1. The device answers the header with \<open>R\<close>, 10 ms into the ready-wait, and sends nothing
  else. The read callback takes the chunk as the ready signal, but it only records the
  time: \<open>transferInProgressRef\<close> stays true, the polling promise is never resolved, and
  after 500 ms the send fails with the ready-wait's timeout. The payload is never written.
\<close>

theorem ready_signal_does_not_release_wait:
  "scanReady ''R''
   \<and> fst (sendImageToDevice base64Std idleRender idleRender readySchedule (Some ''QUJD'')
            idleState)
       = Some ''Failed to send image: Timeout waiting for ready signal''
   \<and> written (snd (sendImageToDevice base64Std idleRender idleRender readySchedule
                       (Some ''QUJD'') idleState))
       = [Write (''START_RTIMAGE'' @ [LF]), WriteHexString ''33cc55aa03000000'']"
  by (simp add: eval_defs readySchedule_def POLLS_def awaitSignal_numeral)

theorem ready_signal_does_not_release_wait_witness:
  "fst (sendImageToDevice base64Std idleRender idleRender readySchedule (Some ''QUJD'')
          idleState) \<noteq> None
   \<and> WriteHexString (toHex (base64Std ''QUJD''))
        \<notin> set (written (snd (sendImageToDevice base64Std idleRender idleRender readySchedule
                                 (Some ''QUJD'') idleState)))"
proof -
  have "toHex (base64Std ''QUJD'') = ''414243''"
    by (simp add: toHex_def hexByte_def hexDigit_def base64Std_def b64Value_def
        List.map_filter_def char_of_eq_iff)
  with ready_signal_does_not_release_wait show ?thesis by simp
qed




subsection \<open>Commands\<close>

lemma trim_id:
  assumes "s \<noteq> []" and "\<not> isSpaceJS (hd s)" and "\<not> isSpaceJS (last s)"
  shows "trim s = s"
proof -
  from assms have 1: "dropWhile isSpaceJS s = s"
    by (cases s) simp_all
  from assms have "rev s \<noteq> []" "\<not> isSpaceJS (hd (rev s))"
    by (simp_all add: hd_rev)
  then have 2: "dropWhile isSpaceJS (rev s) = rev s"
    by (cases "rev s") simp_all
  show ?thesis by (simp add: trim_def 1 2)
qed

lemma digit_not_space: "isDigit c \<Longrightarrow> \<not> isSpaceJS c"
  by (auto simp: isDigit_def isSpaceJS_def)

lemma trim_screentime:
  assumes "ds \<noteq> []" and "list_all isDigit ds"
  shows "trim (''SCREENTIME**'' @ ds) = ''SCREENTIME**'' @ ds"
proof (rule trim_id)
  show "''SCREENTIME**'' @ ds \<noteq> []" by simp
  show "\<not> isSpaceJS (hd (''SCREENTIME**'' @ ds))" by (simp add: isSpaceJS_def)
  from assms have "isDigit (last ds)" by (simp add: list_all_iff)
  with assms show "\<not> isSpaceJS (last (''SCREENTIME**'' @ ds))"
    by (simp add: digit_not_space)
qed

lemma takeWhile_all: "list_all P xs \<Longrightarrow> takeWhile P xs = xs"
  by (induction xs) simp_all

lemma matchScreentime_exact:
  assumes "ds \<noteq> []" and "list_all isDigit ds"
  shows "matchScreentime (''SCREENTIME**'' @ ds) = Some ds"
  using assms by (simp add: takeWhile_all)

text \<open>
  C8, as stated, fails. The test is made only when the command is sent from the
  screen-time field, and it reads the first run of digits after \<open>SCREENTIME**\<close>. So
  \<open>SCREENTIME**29\<close> sent from the logo field is written, and so is \<open>SCREENTIME**300.5\<close>
  sent from the screen-time field.
\<close>

theorem screentime_validation_counterexample:
  "fst (executeCommand (commandRender ''logoCommand'' ''SCREENTIME**29'') ''logoCommand''
          idleState) = Completed
   \<and> written (snd (executeCommand (commandRender ''logoCommand'' ''SCREENTIME**29'')
                     ''logoCommand'' idleState))
       = [Write (''SCREENTIME**29'' @ [LF])]
   \<and> fst (executeCommand (commandRender ''screentimeCommand'' ''SCREENTIME**300.5'')
            ''screentimeCommand'' idleState) = Completed
   \<and> written (snd (executeCommand (commandRender ''screentimeCommand'' ''SCREENTIME**300.5'')
                     ''screentimeCommand'' idleState))
       = [Write (''SCREENTIME**300.5'' @ [LF])]"
  by (simp add: executeCommand_def commandRender_def idleRender_def render_of_def idleState_def
      Let_def falsy_def trim_def isSpaceJS_def isDigit_def parseInt_def usbWrite_def
      addMonitorEntry_def)

text \<open>
  C8, amended. The command is sent from the screen-time field, which holds
  \<open>SCREENTIME**\<close> followed by decimal digits only, and a device is open. If the number is
  below 30 or above 300 the command is refused and nothing is written. If it is between 30
  and 300 (and the link works) the command completes and exactly the command text followed
  by a newline is written.
\<close>

theorem screentime_validated_locally:
  assumes "r_isDeviceConnected r" and "deviceRef s \<noteq> None"
    and "ds \<noteq> []" and "list_all isDigit ds"
    and "r_commandValues r ''screentimeCommand'' = Some (''SCREENTIME**'' @ ds)"
  shows "(parseInt ds < 30 \<or> parseInt ds > 300 \<longrightarrow>
            fst (executeCommand r ''screentimeCommand'' s) = Refused
            \<and> written (snd (executeCommand r ''screentimeCommand'' s)) = written s)
       \<and> (30 \<le> parseInt ds \<and> parseInt ds \<le> 300 \<and> linkError s = None \<longrightarrow>
            fst (executeCommand r ''screentimeCommand'' s) = Completed
            \<and> written (snd (executeCommand r ''screentimeCommand'' s))
                = written s @ [Write (''SCREENTIME**'' @ ds @ [LF])])"
proof -
  define v where "v = ''SCREENTIME**'' @ ds"
  have cv: "map_option trim (r_commandValues r ''screentimeCommand'') = Some v"
    using assms(5) trim_screentime [OF assms(3,4)] by (simp add: v_def)
  have m: "matchScreentime v = Some ds"
    unfolding v_def using assms(3,4) by (rule matchScreentime_exact)
  have nf: "\<not> falsy (Some v)" by (simp add: falsy_def v_def)
  have "(parseInt ds < 30 \<or> parseInt ds > 300 \<longrightarrow>
            fst (executeCommand r ''screentimeCommand'' s) = Refused
            \<and> written (snd (executeCommand r ''screentimeCommand'' s)) = written s)
       \<and> (30 \<le> parseInt ds \<and> parseInt ds \<le> 300 \<and> linkError s = None \<longrightarrow>
            fst (executeCommand r ''screentimeCommand'' s) = Completed
            \<and> written (snd (executeCommand r ''screentimeCommand'' s))
                = written s @ [Write (v @ [LF])])"
    using assms(1,2) nf
    by (auto simp: executeCommand_def Let_def usbWrite_def cv m)
  then show ?thesis by (simp add: v_def)
qed

theorem screentime_validated_locally_witness:
  "fst (executeCommand (screentimeRender ''SCREENTIME**29'') ''screentimeCommand'' idleState)
     = Refused
   \<and> written (snd (executeCommand (screentimeRender ''SCREENTIME**29'') ''screentimeCommand''
                     idleState)) = []
   \<and> fst (executeCommand (screentimeRender ''SCREENTIME**301'') ''screentimeCommand'' idleState)
     = Refused
   \<and> written (snd (executeCommand (screentimeRender ''SCREENTIME**301'') ''screentimeCommand''
                     idleState)) = []
   \<and> written (snd (executeCommand (screentimeRender ''SCREENTIME**30'') ''screentimeCommand''
                     idleState)) = [Write (''SCREENTIME**30'' @ [LF])]
   \<and> written (snd (executeCommand (screentimeRender ''SCREENTIME**300'') ''screentimeCommand''
                     idleState)) = [Write (''SCREENTIME**300'' @ [LF])]"
proof -
  have c: "r_isDeviceConnected (screentimeRender v)" for v
    by (simp add: screentimeRender_def idleRender_def render_of_def idleState_def)
  have d: "deviceRef idleState \<noteq> None" "linkError idleState = None" "written idleState = []"
    by (simp_all add: idleState_def)
  have v: "r_commandValues (screentimeRender (''SCREENTIME**'' @ ds)) ''screentimeCommand''
             = Some (''SCREENTIME**'' @ ds)" for ds
    by (simp add: screentimeRender_def)
  have p: "parseInt ''29'' = 29" "parseInt ''301'' = 301" "parseInt ''30'' = 30"
    "parseInt ''300'' = 300"
    by (simp_all add: parseInt_def)
  have g: "list_all isDigit ''29''" "list_all isDigit ''301''" "list_all isDigit ''30''"
    "list_all isDigit ''300''"
    by (simp_all add: isDigit_def)
  from screentime_validated_locally [OF c d(1) _ g(1) v]
       screentime_validated_locally [OF c d(1) _ g(2) v]
       screentime_validated_locally [OF c d(1) _ g(3) v]
       screentime_validated_locally [OF c d(1) _ g(4) v]
  show ?thesis by (simp add: p d)
qed

subsection \<open>The image loop\<close>

lemmas loop_defs = loopNextVisit_def loopAfterRemoval_def loopAtTwo_def removeImage_def
  splice1_def loopTick_def startImageLoop_def displayNextImage_def stopImageLoop_def
  threeImages_def img0_def img1_def img2_def ackSchedule_def POLLS_def

lemma loopAtTwo_value:
  "loopAtTwo =
     \<lparr> isDeviceConnected = True, showTimeouts = False, commandValues = Map.empty,
       uploadedImages = [img0, img1, img2], imageLoopActive = True,
       logs =
         [(''Displaying image 3 of 3'', INFO), (''Image sent successfully'', SUCCESS),
          (''Sent image data: 1 bytes'', INFO), (''Device ready for image data'', INFO),
          (''Sent image header: 1 bytes'', INFO), (''Sent START_RTIMAGE'', INFO),
          (''Started image loop'', INFO),
          (''Displaying image 2 of 3'', INFO), (''Image sent successfully'', SUCCESS),
          (''Sent image data: 1 bytes'', INFO), (''Device ready for image data'', INFO),
          (''Sent image header: 1 bytes'', INFO), (''Sent START_RTIMAGE'', INFO)],
       deviceRef = Some ''dev1'', currentImageIndexRef = 2, imageLoopIntervalRef = True,
       transferInProgressRef = False, transferAbortedRef = False,
       lastTransferActivityRef = 110, messageBuffer = [],
       written =
         [Write (''START_RTIMAGE'' @ [LF]), WriteHexString ''33cc55aa01000000'',
          WriteHexString ''41'',
          Write (''START_RTIMAGE'' @ [LF]), WriteHexString ''33cc55aa01000000'',
          WriteHexString ''42''],
       linkError = None \<rparr>"
  by (simp add: loop_defs eval_defs awaitSignal_numeral)

text \<open>
  C3, as stated, fails. With the index at 2, removing the second image leaves two images
  and the index still 2, which is not below the length. The next firing of the interval
  sends the payload \<open>C\<close> (hexadecimal 43) of the third image of the list the loop was
  started with, and only then sets the index to 0.
\<close>

theorem loop_index_not_reclamped_counterexample:
  "currentImageIndexRef loopAtTwo = 2
   \<and> imageLoopIntervalRef loopAfterRemoval
   \<and> uploadedImages loopAfterRemoval = [img0, img2]
   \<and> currentImageIndexRef loopAfterRemoval = 2
   \<and> \<not> currentImageIndexRef loopAfterRemoval < length (uploadedImages loopAfterRemoval)
   \<and> written loopNextVisit
       = written loopAfterRemoval
           @ [Write (''START_RTIMAGE'' @ [LF]), WriteHexString ''33cc55aa01000000'',
              WriteHexString ''43'']
   \<and> currentImageIndexRef loopNextVisit = 0"
proof -
  have removal: "loopAfterRemoval = loopAtTwo\<lparr>uploadedImages := [img0, img2]\<rparr>"
    by (simp add: loopAfterRemoval_def removeImage_def splice1_def render_of_def
        loopAtTwo_value)
  have next_written: "written loopNextVisit
       = written loopAfterRemoval
           @ [Write (''START_RTIMAGE'' @ [LF]), WriteHexString ''33cc55aa01000000'',
              WriteHexString ''43'']"
    unfolding loopNextVisit_def removal loopAtTwo_value
    by (simp add: loopTick_def displayNextImage_def stopImageLoop_def threeImages_def
        img0_def img1_def img2_def ackSchedule_def POLLS_def eval_defs awaitSignal_numeral)
  have next_index: "currentImageIndexRef loopNextVisit = 0"
    unfolding loopNextVisit_def removal loopAtTwo_value
    by (simp add: loopTick_def displayNextImage_def stopImageLoop_def threeImages_def
        img0_def img1_def img2_def ackSchedule_def POLLS_def eval_defs awaitSignal_numeral)
  from next_written next_index show ?thesis
    by (simp add: removal loopAtTwo_value)
qed

lemma awaitSignal_index:
  assumes "awaitSignal rr msg n evs s = (x, s')"
  shows "currentImageIndexRef s' = currentImageIndexRef s"
  using awaitSignal_abortsOnly [of s rr msg n evs] assms
  by (auto simp: abortsOnly_def)

lemma runEvents_index [simp]:
  "currentImageIndexRef (runEvents rr es s) = currentImageIndexRef s"
  using runEvents_abortsOnly [of s rr es] by (simp add: abortsOnly_def)

lemma sendImageTry_index:
  "currentImageIndexRef (snd (sendImageTry fromBase64 rr r sch d s0)) = currentImageIndexRef s0"
  by (auto simp: sendImageTry_def usbWrite_def Let_def
      split: prod.splits option.splits if_splits dest!: awaitSignal_index)

lemma sendImageToDevice_index:
  "currentImageIndexRef (snd (sendImageToDevice fromBase64 rr r sch img s))
     = currentImageIndexRef s"
  using sendImageTry_index
    [of fromBase64 rr r sch "the img"
        "s\<lparr>transferInProgressRef := True, transferAbortedRef := False\<rparr>"]
  by (auto simp: sendImageToDevice_def split: prod.splits option.splits)

lemma stopImageLoop_index [simp]:
  "currentImageIndexRef (stopImageLoop r s) = currentImageIndexRef s"
  by (simp add: stopImageLoop_def)

lemma displayNextImage_index:
  assumes "r_uploadedImages r \<noteq> []"
    and "currentImageIndexRef s < length (r_uploadedImages r)"
  shows "currentImageIndexRef (displayNextImage fromBase64 rr r sch s)
           < length (r_uploadedImages r)"
proof -
  obtain x s1 where send:
    "sendImageToDevice fromBase64 rr r sch
       (base64 (r_uploadedImages r ! currentImageIndexRef s)) s = (x, s1)"
    by force
  with sendImageToDevice_index
         [of fromBase64 rr r sch "base64 (r_uploadedImages r ! currentImageIndexRef s)" s]
  have "currentImageIndexRef s1 = currentImageIndexRef s" by simp
  with assms send show ?thesis
    by (cases x) (simp_all add: displayNextImage_def Let_def)
qed

text \<open>
  C3, amended. The index stays below the length of the list the loop was started with:
  \<open>startImageLoop\<close> establishes this and every firing of the interval keeps it, whatever
  the outcome of the send. \<open>removeImage\<close> changes neither the index nor the list the loop
  runs over.
\<close>

theorem loop_index_within_started_sequence:
  "(r_isDeviceConnected r \<and> r_uploadedImages r \<noteq> [] \<longrightarrow>
      currentImageIndexRef (startImageLoop dec rr r sch s) < length (r_uploadedImages r))
   \<and> (r_uploadedImages r \<noteq> [] \<and> currentImageIndexRef s < length (r_uploadedImages r) \<longrightarrow>
        currentImageIndexRef (loopTick dec rr r sch s) < length (r_uploadedImages r))
   \<and> currentImageIndexRef (removeImage r' i s) = currentImageIndexRef s"
proof (intro conjI impI)
  assume a: "r_isDeviceConnected r \<and> r_uploadedImages r \<noteq> []"
  let ?s2 = "(stopImageLoop r s)\<lparr>currentImageIndexRef := 0, imageLoopActive := True\<rparr>"
  from a have "currentImageIndexRef ?s2 < length (r_uploadedImages r)" by simp
  with a have "currentImageIndexRef (displayNextImage dec rr r sch ?s2)
                 < length (r_uploadedImages r)"
    by (intro displayNextImage_index) simp_all
  with a show "currentImageIndexRef (startImageLoop dec rr r sch s)
                 < length (r_uploadedImages r)"
    by (simp add: startImageLoop_def Let_def)
next
  assume "r_uploadedImages r \<noteq> [] \<and> currentImageIndexRef s < length (r_uploadedImages r)"
  then show "currentImageIndexRef (loopTick dec rr r sch s) < length (r_uploadedImages r)"
    by (simp add: loopTick_def displayNextImage_index)
next
  show "currentImageIndexRef (removeImage r' i s) = currentImageIndexRef s"
    by (simp add: removeImage_def Let_def)
qed

theorem loop_index_within_started_sequence_witness:
  "(r_isDeviceConnected (render_of threeImages) \<and> r_uploadedImages (render_of threeImages) \<noteq> [])
   \<and> currentImageIndexRef
         (startImageLoop base64Std idleRender (render_of threeImages) ackSchedule threeImages) < 3
   \<and> currentImageIndexRef loopAfterRemoval < length (r_uploadedImages (render_of threeImages))
   \<and> currentImageIndexRef loopNextVisit < 3
   \<and> currentImageIndexRef loopAfterRemoval = currentImageIndexRef loopAtTwo"
proof -
  have h: "r_isDeviceConnected (render_of threeImages)
           \<and> r_uploadedImages (render_of threeImages) \<noteq> []"
    "length (r_uploadedImages (render_of threeImages)) = 3"
    by (simp_all add: render_of_def threeImages_def idleState_def)
  note t1 = loop_index_within_started_sequence
      [where r = "render_of threeImages" and dec = base64Std and rr = idleRender
         and sch = ackSchedule and s = threeImages and r' = "render_of loopAtTwo" and i = 1]
  note t2 = loop_index_within_started_sequence
      [where r = "render_of threeImages" and dec = base64Std and rr = idleRender
         and sch = ackSchedule
         and s = "startImageLoop base64Std idleRender (render_of threeImages) ackSchedule
                    threeImages"
         and r' = "render_of loopAtTwo" and i = 1]
  note t3 = loop_index_within_started_sequence
      [where r = "render_of threeImages" and dec = base64Std and rr = idleRender
         and sch = ackSchedule and s = loopAtTwo and r' = "render_of loopAtTwo" and i = 1]
  note t4 = loop_index_within_started_sequence
      [where r = "render_of threeImages" and dec = base64Std and rr = idleRender
         and sch = ackSchedule and s = loopAfterRemoval and r' = "render_of loopAtTwo"
         and i = 1]
  have start: "currentImageIndexRef
         (startImageLoop base64Std idleRender (render_of threeImages) ackSchedule threeImages) < 3"
    using t1 h by simp
  then have two: "currentImageIndexRef loopAtTwo < 3"
    using t2 h by (simp add: loopAtTwo_def)
  have rem: "currentImageIndexRef loopAfterRemoval = currentImageIndexRef loopAtTwo"
    using t3 by (simp add: loopAfterRemoval_def)
  have "currentImageIndexRef loopNextVisit < 3"
    using t4 h rem two by (simp add: loopNextVisit_def)
  with h rem start two show ?thesis by simp
qed

subsection \<open>The image list\<close>

lemma stopImageLoop_images [simp]: "uploadedImages (stopImageLoop r s) = uploadedImages s"
  by (simp add: stopImageLoop_def addMonitorEntry_def)






subsection \<open>Splitting into lines\<close>

lemma LF_neq_CR [simp]: "LF \<noteq> CR" "CR \<noteq> LF"
  by (simp_all add: LF_def CR_def)

lemma splitLines_nonempty [simp]: "splitLines s \<noteq> []"
  by (induction s rule: splitLines.induct) (simp_all add: consHead_def split: list.splits)

lemma consHead_nonempty [simp]: "consHead c L \<noteq> []"
  by (simp add: consHead_def split: list.splits)

lemma splitLines_LF: "splitLines (LF # s) = [] # splitLines s"
  by (cases s) simp_all

lemma splitLines_CRLF: "splitLines (CR # LF # s) = [] # splitLines s"
  by simp

lemma splitLines_plain:
  assumes "c \<noteq> LF" and "\<not> (c = CR \<and> s \<noteq> [] \<and> hd s = LF)"
  shows "splitLines (c # s) = consHead c (splitLines s)"
  using assms by (cases s) (auto simp: consHead_def)

lemma splitLines_single: "splitLines s = [l] \<Longrightarrow> l = s"
proof (induction s arbitrary: l rule: splitLines.induct)
  case 1
  then show ?case by simp
next
  case (2 c)
  then show ?case by (simp split: if_splits)
next
  case (3 c d cs)
  from "3.prems" have plain: "\<not> (c = CR \<and> d = LF)" "c \<noteq> LF"
    by (auto split: if_splits)
  with "3.prems" have "consHead c (splitLines (d # cs)) = [l]" by simp
  then obtain l0 where l0: "splitLines (d # cs) = [l0]" "l = c # l0"
    by (auto simp: consHead_def split: list.splits)
  from "3.IH"(3) [OF _ plain(2) l0(1)] plain have "l0 = d # cs" by blast
  with l0 show ?case by simp
qed

lemma consHead_butlast_last:
  assumes "L \<noteq> []"
  shows "butlast (consHead c L) @ splitLines (last (consHead c L) @ y)
         = (if length L = 1 then splitLines (c # hd L @ y)
            else consHead c (butlast L @ splitLines (last L @ y)))"
proof (cases L)
  case Nil
  with assms show ?thesis by simp
next
  case (Cons l0 ls)
  then show ?thesis
    by (cases ls) (simp_all add: consHead_def)
qed

lemma splitLines_append:
  "splitLines (x @ y) = butlast (splitLines x) @ splitLines (last (splitLines x) @ y)"
proof (induction x rule: splitLines.induct)
  case 1
  then show ?case by simp
next
  case (2 c)
  then show ?case by (simp add: splitLines_LF)
next
  case (3 c d cs)
  show ?case
  proof (cases "c = CR \<and> d = LF")
    case True
    with "3.IH"(1) show ?thesis by (simp add: butlast_append)
  next
    case notCRLF: False
    show ?thesis
    proof (cases "c = LF")
      case True
      with notCRLF "3.IH"(2) have
        "splitLines (d # cs @ y)
           = butlast (splitLines (d # cs)) @ splitLines (last (splitLines (d # cs)) @ y)"
        by simp
      with True notCRLF show ?thesis
        using splitLines_LF [of "d # cs @ y"] by simp
    next
      case notLF: False
      let ?L = "splitLines (d # cs)"
      from notCRLF notLF "3.IH"(3) have IH:
        "splitLines (d # cs @ y) = butlast ?L @ splitLines (last ?L @ y)"
        by simp
      have lhs: "splitLines ((c # d # cs) @ y) = consHead c (splitLines (d # cs @ y))"
        using notCRLF notLF by auto
      have x: "splitLines (c # d # cs) = consHead c ?L"
        using notCRLF notLF by auto
      show ?thesis
      proof (cases "length ?L = 1")
        case True
        then obtain l0 where l0: "?L = [l0]"
          by (cases ?L) simp_all
        then have "l0 = d # cs" by (rule splitLines_single)
        with l0 lhs x show ?thesis
          by (simp add: consHead_def)
      next
        case False
        with consHead_butlast_last [of ?L c y]
        have "butlast (consHead c ?L) @ splitLines (last (consHead c ?L) @ y)
              = consHead c (butlast ?L @ splitLines (last ?L @ y))"
          by simp
        with lhs x IH show ?thesis by simp
      qed
    qed
  qed
qed

lemma splitLines_last_suffix: "suffix (last (splitLines s)) s"
proof (induction s rule: splitLines.induct)
  case 1
  then show ?case by simp
next
  case (2 c)
  then show ?case by simp
next
  case (3 c d cs)
  show ?case
  proof (cases "c = CR \<and> d = LF")
    case True
    with "3.IH"(1) show ?thesis by (simp add: suffix_ConsI)
  next
    case notCRLF: False
    show ?thesis
    proof (cases "c = LF")
      case True
      with notCRLF "3.IH"(2) show ?thesis by (simp add: suffix_ConsI)
    next
      case notLF: False
      let ?L = "splitLines (d # cs)"
      from notCRLF notLF "3.IH"(3) have IH: "suffix (last ?L) (d # cs)" by simp
      have x: "splitLines (c # d # cs) = consHead c ?L"
        using notCRLF notLF by auto
      obtain l0 ls where L: "?L = l0 # ls" by (cases ?L) simp_all
      show ?thesis
      proof (cases ls)
        case Nil
        with L have "l0 = d # cs" by (simp add: splitLines_single)
        with L Nil show ?thesis unfolding x by (simp add: consHead_def)
      next
        case (Cons a as)
        with L IH show ?thesis
          unfolding x by (simp add: consHead_def suffix_ConsI)
      qed
    qed
  qed
qed

subsection \<open>The sentinel scans\<close>

lemma removeFirst_first_occurrence:
  assumes "pat \<noteq> []" and "sublist pat s"
  shows "\<exists>ps ss. s = ps @ pat @ ss \<and> \<not> sublist pat (ps @ butlast pat)
                 \<and> removeFirst pat s = ps @ ss"
  using assms(2)
proof (induction s)
  case Nil
  with assms(1) show ?case by simp
next
  case (Cons c cs)
  show ?case
  proof (cases "prefix pat (c # cs)")
    case True
    then obtain ss where ss: "c # cs = pat @ ss" by (auto simp: prefix_def)
    have "\<not> sublist pat (butlast pat)"
    proof
      assume "sublist pat (butlast pat)"
      then have "length pat \<le> length (butlast pat)" by (rule sublist_length_le)
      with assms(1) show False by (simp add: length_greater_0_conv [symmetric] del: length_greater_0_conv)
    qed
    moreover from True have "removeFirst pat (c # cs) = drop (length pat) (c # cs)"
      by simp
    then have "removeFirst pat (c # cs) = ss" unfolding ss by simp
    ultimately show ?thesis
      using ss by (intro exI [of _ "[]"] exI [of _ ss]) simp
  next
    case False
    with Cons.prems have "sublist pat cs" by (simp add: sublist_Cons_right)
    with Cons.IH obtain ps ss where
      IH: "cs = ps @ pat @ ss" "\<not> sublist pat (ps @ butlast pat)" "removeFirst pat cs = ps @ ss"
      by blast
    have "\<not> prefix pat (c # ps @ butlast pat)"
    proof
      assume "prefix pat (c # ps @ butlast pat)"
      moreover have "prefix (c # ps @ butlast pat) (c # cs)"
      proof -
        have "c # cs = (c # ps @ butlast pat) @ ([last pat] @ ss)"
          using assms(1) IH(1) by simp
        then show ?thesis unfolding prefix_def by blast
      qed
      ultimately have "prefix pat (c # cs)" by (rule prefix_order.trans)
      with False show False ..
    qed
    with IH(2) have "\<not> sublist pat ((c # ps) @ butlast pat)"
      by (simp add: sublist_Cons_right)
    with IH False show ?thesis
      by (intro exI [of _ "c # ps"] exI [of _ ss]) simp
  qed
qed

lemma FRAME_LOST_nonempty [simp]: "FRAME_LOST \<noteq> []"
  by (simp add: FRAME_LOST_def)

lemma INVALID_CMD_nonempty [simp]: "INVALID_CMD \<noteq> []"
  by (simp add: INVALID_CMD_def)

lemma logMessages_activity [simp]:
  "lastTransferActivityRef (logMessages r ms s) = lastTransferActivityRef s"
  by (induction ms arbitrary: s) simp_all

lemma addMonitorEntry_keeps: "set (logs s) \<subseteq> set (logs (addMonitorEntry r m ty s))"
  by (auto simp: addMonitorEntry_def)

lemma logMessages_keeps: "set (logs s) \<subseteq> set (logs (logMessages r ms s))"
proof (induction ms arbitrary: s)
  case Nil
  then show ?case by simp
next
  case (Cons m ms)
  define s' where
    "s' = (if trim m \<noteq> [] then addMonitorEntry r (''Received: '' @ trim m) SUCCESS s else s)"
  have "set (logs s) \<subseteq> set (logs s')"
    unfolding s'_def using addMonitorEntry_keeps by simp
  also have "set (logs s') \<subseteq> set (logs (logMessages r ms s'))"
    by (rule Cons.IH)
  also have "logMessages r ms s' = logMessages r (m # ms) s"
    unfolding s'_def by simp
  finally show ?case .
qed

lemma scanInvalidCmd_fields [simp]:
  "written (scanInvalidCmd r s) = written s"
  "transferAbortedRef (scanInvalidCmd r s) = transferAbortedRef s"
  "transferInProgressRef (scanInvalidCmd r s) = transferInProgressRef s"
  "messageBuffer (scanInvalidCmd r s)
     = (if includesStr (messageBuffer s) INVALID_CMD then removeFirst INVALID_CMD (messageBuffer s)
        else messageBuffer s)"
  by (simp_all add: scanInvalidCmd_def Let_def)

lemma scanInvalidCmd_keeps: "set (logs s) \<subseteq> set (logs (scanInvalidCmd r s))"
  by (auto simp: scanInvalidCmd_def Let_def addMonitorEntry_def)

lemma abortTransferResume_fields [simp]:
  "written (abortTransferResume r p s) = written s"
  "messageBuffer (abortTransferResume r p s) = messageBuffer s"
  "transferAbortedRef (abortTransferResume r p s) = (p \<noteq> None \<or> transferAbortedRef s)"
  by (auto simp: abortTransferResume_def Let_def split: option.splits)

lemma abortTransferResume_keeps: "set (logs s) \<subseteq> set (logs (abortTransferResume r p s))"
  by (auto simp: abortTransferResume_def Let_def addMonitorEntry_def split: option.splits)

text \<open>What the \<open>FRAME_LOST\<close> scan does when the sentinel is in the buffer.\<close>

lemma scanFrameLost_found:
  assumes "includesStr (messageBuffer s) FRAME_LOST"
  shows "transferAbortedRef (snd (scanFrameLost r s))"
    and "messageBuffer (snd (scanFrameLost r s)) = removeFirst FRAME_LOST (messageBuffer s)"
    and "written (snd (scanFrameLost r s))
           = written s @ (if transferInProgressRef s \<and> deviceRef s \<noteq> None \<and> linkError s = None
                          then [ABORT_WRITE] else [])"
    and "(''FRAME_LOST detected!'', ERROR) \<in> set (logs (snd (scanFrameLost r s)))"
  using assms
  by (auto simp: scanFrameLost_def Let_def split_def abortTransferCall_def usbWrite_def
      addMonitorEntry_def ABORT_WRITE_def split: option.splits)

lemma onData_text:
  assumes "r_isDeviceConnected r" and "\<not> scanReady data" and "scanAck data = None"
  shows "onData r now data s
         = abortTransferResume r (fst (processText r data s))
             ((snd (processText r data s))\<lparr>lastTransferActivityRef := now\<rparr>)"
  using assms by (simp add: onData_def split_def Let_def)

subsection \<open>Lines across chunk boundaries\<close>

lemma logMessages_closed: "logMessages r ms s = s\<lparr>logs := rev (textLines ms) @ logs s\<rparr>"
  by (induction ms arbitrary: s) (simp_all add: textLines_def addMonitorEntry_def)

lemma scanReady_append: "scanReady (a @ b) = (scanReady a \<or> scanReady b)"
  by (induction a) simp_all

lemma scanAck_append:
  "scanAck (a @ b) = (case scanAck a of Some x \<Rightarrow> Some x | None \<Rightarrow> scanAck b)"
  by (induction a) simp_all

text \<open>A text chunk with neither sentinel in the buffer: split, keep the rest, log.\<close>

lemma onData_plain_text:
  assumes "r_isDeviceConnected r" and "\<not> scanReady data" and "scanAck data = None"
    and "\<not> includesStr (messageBuffer s @ data) FRAME_LOST"
    and "\<not> includesStr (messageBuffer s @ data) INVALID_CMD"
  shows "onData r now data s
         = s\<lparr>logs := rev (textLines (butlast (splitLines (messageBuffer s @ data)))) @ logs s,
              messageBuffer := last (splitLines (messageBuffer s @ data)),
              lastTransferActivityRef := now\<rparr>"
  using assms
  by (simp add: onData_text processText_def scanFrameLost_def scanInvalidCmd_def Let_def
      decode_def logMessages_closed abortTransferResume_def)

lemma not_includes_shorter:
  assumes "\<not> includesStr (b @ c1 @ c2) p"
  shows "\<not> includesStr (b @ c1) p"
    and "\<not> includesStr (last (splitLines (b @ c1)) @ c2) p"
proof -
  show "\<not> includesStr (b @ c1) p"
  proof
    assume "includesStr (b @ c1) p"
    then have "sublist p ((b @ c1) @ c2)"
      unfolding includesStr_def by (metis sublist_append)
    with assms show False by (simp add: includesStr_def)
  qed
  show "\<not> includesStr (last (splitLines (b @ c1)) @ c2) p"
  proof
    assume "includesStr (last (splitLines (b @ c1)) @ c2) p"
    then have 1: "sublist p (last (splitLines (b @ c1)) @ c2)" by (simp add: includesStr_def)
    from splitLines_last_suffix [of "b @ c1"] obtain zs where
      "b @ c1 = zs @ last (splitLines (b @ c1))" by (auto simp: suffix_def)
    then have "b @ c1 @ c2 = zs @ (last (splitLines (b @ c1)) @ c2)"
      by (metis append_assoc)
    with 1 have "sublist p (b @ c1 @ c2)"
      by (metis sublist_append)
    with assms show False by (simp add: includesStr_def)
  qed
qed

lemmas classifier_eval = onData_def processText_def scanFrameLost_def scanInvalidCmd_def
  abortTransferResume_def addMonitorEntry_def includesStr_def decode_def trim_def isSpaceJS_def
  FRAME_LOST_def INVALID_CMD_def idleRender_def render_of_def idleState_def Let_def
  consHead_def

text \<open>
  C5, as stated, fails. The text \<open>Eab\<close> with a line feed, given in one chunk, contains
  the byte \<open>E\<close> and is taken as an error acknowledgement: nothing is logged. Split after the
  first byte, the second chunk is plain text and the line \<open>ab\<close> is logged. And a text
  without signal bytes but with the \<open>INVALID_CMD\<close> sentinel gives the same entries in a
  different order when it is split inside the sentinel.
\<close>

theorem split_invariance_counterexample:
  "logs (onData idleRender 20 (''ab'' @ [LF]) (onData idleRender 10 ''E'' idleState))
     = [(''Received: ab'', SUCCESS)]
   \<and> logs (onData idleRender 20 (''E'' @ ''ab'' @ [LF]) idleState) = []
   \<and> logs (onData idleRender 20 (''CMD'' @ [CR, LF] @ ''b'' @ [LF])
             (onData idleRender 10 (''a'' @ [LF] @ ''INVALID_'') idleState))
     = [(''Received: b'', SUCCESS), (''Received: INVALID_CMD'', ERROR),
        (''Received: a'', SUCCESS)]
   \<and> logs (onData idleRender 20
             ((''a'' @ [LF] @ ''INVALID_'') @ ''CMD'' @ [CR, LF] @ ''b'' @ [LF]) idleState)
     = [(''Received: b'', SUCCESS), (''Received: a'', SUCCESS),
        (''Received: INVALID_CMD'', ERROR)]"
  by (simp add: classifier_eval LF_def CR_def sublist_Cons_right)

text \<open>
  C5, amended. Both chunks are ASCII text chunks (no \<open>R\<close>, \<open>K\<close> or \<open>E\<close>), and the buffer
  followed by the two chunks contains neither sentinel. Then processing the two chunks one
  after the other, with the buffer carried over, ends in the same state as processing their
  concatenation as one chunk: the same monitor entries in the same order and the same
  buffer. The entries are those of the complete lines of the whole text.
\<close>

theorem split_invariance_plain_text:
  assumes "r_isDeviceConnected r"
    and "\<not> scanReady c1" and "scanAck c1 = None" and "ascii c1"
    and "\<not> scanReady c2" and "scanAck c2 = None" and "ascii c2"
    and "\<not> includesStr (messageBuffer s @ c1 @ c2) FRAME_LOST"
    and "\<not> includesStr (messageBuffer s @ c1 @ c2) INVALID_CMD"
  shows "onData r t2 c2 (onData r t1 c1 s) = onData r t2 (c1 @ c2) s
       \<and> logs (onData r t2 (c1 @ c2) s)
           = rev (textLines (butlast (splitLines (messageBuffer s @ c1 @ c2)))) @ logs s
       \<and> messageBuffer (onData r t2 (c1 @ c2) s)
           = last (splitLines (messageBuffer s @ c1 @ c2))"
proof -
  let ?b = "messageBuffer s"
  let ?L1 = "splitLines (?b @ c1)"
  let ?L2 = "splitLines (last ?L1 @ c2)"
  note short = not_includes_shorter [OF assms(8)] not_includes_shorter [OF assms(9)]
  have one: "onData r t1 c1 s
         = s\<lparr>logs := rev (textLines (butlast ?L1)) @ logs s,
              messageBuffer := last ?L1, lastTransferActivityRef := t1\<rparr>"
    using assms(1-3) short by (intro onData_plain_text) simp_all
  have two: "onData r t2 c2 (onData r t1 c1 s)
         = s\<lparr>logs := rev (textLines (butlast ?L2)) @ rev (textLines (butlast ?L1)) @ logs s,
              messageBuffer := last ?L2, lastTransferActivityRef := t2\<rparr>"
    unfolding one
    using assms(1,5,6) short
    by (subst onData_plain_text) simp_all
  have whole_chunk: "\<not> scanReady (c1 @ c2)" "scanAck (c1 @ c2) = None"
    using assms(2,3,5,6) by (simp_all add: scanReady_append scanAck_append)
  have whole: "onData r t2 (c1 @ c2) s
         = s\<lparr>logs := rev (textLines (butlast (splitLines (?b @ c1 @ c2)))) @ logs s,
              messageBuffer := last (splitLines (?b @ c1 @ c2)),
              lastTransferActivityRef := t2\<rparr>"
    using assms(1,8,9) whole_chunk by (intro onData_plain_text) simp_all
  have L: "splitLines (?b @ c1 @ c2) = butlast ?L1 @ ?L2"
    using splitLines_append [of "?b @ c1" c2] by simp
  have "butlast (butlast ?L1 @ ?L2) = butlast ?L1 @ butlast ?L2"
    by (simp add: butlast_append)
  then have lines: "textLines (butlast (splitLines (?b @ c1 @ c2)))
                    = textLines (butlast ?L1) @ textLines (butlast ?L2)"
    unfolding L by (simp add: textLines_def)
  have lst: "last (splitLines (?b @ c1 @ c2)) = last ?L2"
    unfolding L by simp
  have eq: "onData r t2 c2 (onData r t1 c1 s) = onData r t2 (c1 @ c2) s"
    unfolding two whole lines lst by simp
  from eq show ?thesis unfolding whole by simp
qed

theorem split_invariance_plain_text_witness:
  "r_isDeviceConnected idleRender
   \<and> onData idleRender 20 (''lo'' @ [LF] @ ''wo'') (onData idleRender 10 ''hel'' idleState)
       = onData idleRender 20 (''hel'' @ ''lo'' @ [LF] @ ''wo'') idleState
   \<and> logs (onData idleRender 20 (''hel'' @ ''lo'' @ [LF] @ ''wo'') idleState)
       = [(''Received: hello'', SUCCESS)]
   \<and> messageBuffer (onData idleRender 20 (''hel'' @ ''lo'' @ [LF] @ ''wo'') idleState) = ''wo''"
proof -
  have h: "r_isDeviceConnected idleRender"
    "\<not> scanReady ''hel''" "scanAck ''hel'' = None" "ascii ''hel''"
    "\<not> scanReady (''lo'' @ [LF] @ ''wo'')" "scanAck (''lo'' @ [LF] @ ''wo'') = None"
    "ascii (''lo'' @ [LF] @ ''wo'')"
    "\<not> includesStr (messageBuffer idleState @ ''hel'' @ ''lo'' @ [LF] @ ''wo'') FRAME_LOST"
    "\<not> includesStr (messageBuffer idleState @ ''hel'' @ ''lo'' @ [LF] @ ''wo'') INVALID_CMD"
    by (simp_all add: idleRender_def render_of_def idleState_def LF_def CR_def ascii_def
        includesStr_def FRAME_LOST_def INVALID_CMD_def sublist_Cons_right)
  have v: "rev (textLines (butlast (splitLines
                 (messageBuffer idleState @ ''hel'' @ ''lo'' @ [LF] @ ''wo''))))
             @ logs idleState = [(''Received: hello'', SUCCESS)]"
    "last (splitLines (messageBuffer idleState @ ''hel'' @ ''lo'' @ [LF] @ ''wo'')) = ''wo''"
    by (simp_all add: idleState_def LF_def CR_def textLines_def trim_def isSpaceJS_def
        consHead_def)
  from split_invariance_plain_text [OF h, of 20 10] h(1) v
  show ?thesis by simp
qed

subsection \<open>Which bytes can reach the buffer\<close>












end
